theory Spec2Isabelle
  imports Main "HOL-Library.Word" "HOL-Library.Multiset"
begin

section \<open>AddressSanitizer memory profile (asan\_memory\_profile.cpp)\<close>

text \<open>
  The embedding follows \<^verbatim>\<open>compiler-rt/lib/asan/asan_memory_profile.cpp\<close>.

  \<^verbatim>\<open>uptr\<close> is the pointer-sized unsigned integer of the sanitizer runtime: 64 bits on
  x86-64 and AArch64, 32 bits on i386 and 32-bit ARM (both of which build this file, since
  \<^verbatim>\<open>CAN_SANITIZE_LEAKS\<close> is set there). It is modelled as \<open>'w word\<close> for an arbitrary
  width \<open>'w\<close>: addition and multiplication wrap around, division is unsigned and
  truncating. \<^verbatim>\<open>u32\<close> is \<open>32 word\<close>.
\<close>

type_synonym u32 = "32 word"

subsection \<open>Data\<close>

text \<open>\<^verbatim>\<open>struct AllocationSite { u32 id; uptr total_size; uptr count; }\<close>.
  The fields \<^verbatim>\<open>id\<close> and \<^verbatim>\<open>count\<close> are written \<open>id'\<close> and \<open>count'\<close>: the plain
  names are constants of HOL.\<close>

record (overloaded) 'w AllocationSite =
  id' :: u32
  total_size :: "'w word"
  count' :: "'w word"

text \<open>The private members of \<^verbatim>\<open>class HeapProfile\<close>, without their trailing underscore.
  \<^verbatim>\<open>InternalMmapVector<AllocationSite>\<close> is a list.\<close>

record (overloaded) 'w HeapProfile =
  total_allocated_user_size :: "'w word"
  total_allocated_count :: "'w word"
  total_quarantined_user_size :: "'w word"
  total_quarantined_count :: "'w word"
  total_other_count :: "'w word"
  allocations :: "'w AllocationSite list"

text \<open>The constructor \<^verbatim>\<open>HeapProfile()\<close>: every counter has the default member
  initialiser 0 and the vector is empty (\<^verbatim>\<open>reserve\<close> changes its capacity only).\<close>

definition HeapProfile_init :: "'w::len HeapProfile" where
  "HeapProfile_init =
     \<lparr>total_allocated_user_size = 0, total_allocated_count = 0,
      total_quarantined_user_size = 0, total_quarantined_count = 0,
      total_other_count = 0, allocations = []\<rparr>"

text \<open>Modelled from the spec: \<^verbatim>\<open>AsanChunkView\<close> (asan\_allocator.h) is not part of the
  source at hand. \<^verbatim>\<open>ProcessChunk\<close> reads a chunk through four observers only, so a chunk
  view is the record of what they return. The spec's \<open>ChunkRecord\<close> is one of
  Allocated(size, site id), Quarantined(size), Other.\<close>

record (overloaded) 'w AsanChunkView =
  IsAllocated :: bool
  IsQuarantined :: bool
  UsedSize :: "'w word"
  GetAllocStackId :: u32

subsection \<open>The aggregator\<close>

text \<open>\<^verbatim>\<open>HeapProfile::Insert\<close>: a linear scan from index 0 that updates the first record
  with the given id and returns, and appends \<^verbatim>\<open>{id, size, 1}\<close> when the scan finds none.\<close>

fun Insert :: "u32 \<Rightarrow> 'w::len word \<Rightarrow> 'w AllocationSite list \<Rightarrow> 'w AllocationSite list" where
  "Insert i sz [] = [\<lparr>id' = i, total_size = sz, count' = 1\<rparr>]"
| "Insert i sz (a # as) =
     (if id' a = i
      then a\<lparr>total_size := total_size a + sz, count' := count' a + 1\<rparr> # as
      else a # Insert i sz as)"

text \<open>\<^verbatim>\<open>HeapProfile::ProcessChunk\<close>.\<close>

definition ProcessChunk :: "'w::len HeapProfile \<Rightarrow> 'w AsanChunkView \<Rightarrow> 'w HeapProfile" where
  "ProcessChunk hp cv =
     (if IsAllocated cv then
        let hp1 = hp\<lparr>total_allocated_user_size := total_allocated_user_size hp + UsedSize cv,
                     total_allocated_count := total_allocated_count hp + 1\<rparr>;
            i = GetAllocStackId cv
        in if i \<noteq> 0 then hp1\<lparr>allocations := Insert i (UsedSize cv) (allocations hp1)\<rparr>
           else hp1
      else if IsQuarantined cv then
        hp\<lparr>total_quarantined_user_size := total_quarantined_user_size hp + UsedSize cv,
           total_quarantined_count := total_quarantined_count hp + 1\<rparr>
      else
        hp\<lparr>total_other_count := total_other_count hp + 1\<rparr>)"

text \<open>Modelled from the spec: \<^verbatim>\<open>__lsan::ForEachChunk\<close> is not part of the source at hand;
  it calls the callback once per heap chunk, in an order of its own. The callback is
  \<^verbatim>\<open>ChunkCallback\<close>, which hands the view of the chunk (\<^verbatim>\<open>FindHeapChunkByAllocBeg\<close>) to
  \<^verbatim>\<open>ProcessChunk\<close>; the argument \<open>chunks\<close> is the list of those views in the order of
  enumeration.\<close>

definition ForEachChunk :: "'w::len AsanChunkView list \<Rightarrow> 'w HeapProfile \<Rightarrow> 'w HeapProfile" where
  "ForEachChunk chunks hp = foldl ProcessChunk hp chunks"

subsection \<open>The renderer\<close>

text \<open>Modelled from the spec: \<^verbatim>\<open>Sort\<close> (sanitizer\_common.h) is not part of the source at
  hand. The spec has the renderer sort the list of sites by \<^verbatim>\<open>total_size\<close> descending and
  leaves the order of sites with equal \<^verbatim>\<open>total_size\<close> open. \<open>Sort cmp v\<close> is a
  rearrangement of \<open>v\<close> in which an element that \<open>cmp\<close> puts strictly before another
  comes first; it is computed by insertion. No theorem below depends on where it places
  equal elements.\<close>

fun Sort_insert :: "('a \<Rightarrow> 'a \<Rightarrow> bool) \<Rightarrow> 'a \<Rightarrow> 'a list \<Rightarrow> 'a list" where
  "Sort_insert cmp x [] = [x]"
| "Sort_insert cmp x (y # ys) =
     (if cmp y x then y # Sort_insert cmp x ys else x # y # ys)"

definition Sort :: "('a \<Rightarrow> 'a \<Rightarrow> bool) \<Rightarrow> 'a list \<Rightarrow> 'a list" where
  "Sort cmp v = foldr (Sort_insert cmp) v []"

text \<open>What \<^verbatim>\<open>Print\<close> writes. \<^verbatim>\<open>Printf\<close> and the stack depot are outside the source at
  hand, so a piece of output is the tuple of values handed to them:
  the header with its eight arguments, a site line with \<^verbatim>\<open>total_size\<close>, percentage and
  \<^verbatim>\<open>count\<close>, and the stack trace printed by \<^verbatim>\<open>StackDepotGet(a.id).Print()\<close>. The type
  parameter \<open>'u\<close> is the type of \<^verbatim>\<open>uptr\<close> values, \<open>'w word\<close> throughout.\<close>

datatype 'u printed =
    Header 'u 'u 'u 'u 'u 'u 'u 'u
  | Site_line 'u 'u 'u
  | Stack_trace u32

text \<open>\<^verbatim>\<open>CHECK(total_allocated_user_size_)\<close> ends the process when it fails.\<close>

datatype error = CHECK_failed

text \<open>The \<^verbatim>\<open>for\<close> loop of \<^verbatim>\<open>Print\<close>, with the loop variable \<open>i\<close>, \<^verbatim>\<open>total_shown\<close> and
  the output written so far. \<open>i\<close> stays below \<^verbatim>\<open>Min(allocations_.size(),
  max_number_of_contexts)\<close>, so the \<^verbatim>\<open>uptr\<close> increment never wraps and \<open>i\<close> is a natural
  number here. The arithmetic on sizes is that of \<^verbatim>\<open>uptr\<close>.\<close>

function Print_loop ::
  "'w::len HeapProfile \<Rightarrow> 'w word \<Rightarrow> 'w word \<Rightarrow> nat \<Rightarrow> 'w word \<Rightarrow> 'w word printed list
     \<Rightarrow> 'w word printed list" where
  "Print_loop hp top_percent max_number_of_contexts i total_shown out =
     (if i < min (length (allocations hp)) (unat max_number_of_contexts) then
        let a = allocations hp ! i;
            out1 = out @ [Site_line (total_size a)
                            (total_size a * 100 div total_allocated_user_size hp) (count' a),
                          Stack_trace (id' a)];
            total_shown1 = total_shown + total_size a
        in if total_shown1 * 100 div total_allocated_user_size hp > top_percent then out1
           else Print_loop hp top_percent max_number_of_contexts (i + 1) total_shown1 out1
      else out)"
  by pat_completeness auto
termination
  by (relation "measure (\<lambda>(hp, top_percent, max_number_of_contexts, i, total_shown, out).
        min (length (allocations hp)) (unat max_number_of_contexts) - i)") auto

declare Print_loop.simps [simp del]

text \<open>\<^verbatim>\<open>HeapProfile::Print\<close>: sort in place, check, header, loop. The result is the
  profile with its sorted vector and everything printed, or the failed check.\<close>

definition Print ::
  "'w::len word \<Rightarrow> 'w word \<Rightarrow> 'w HeapProfile \<Rightarrow> error + ('w HeapProfile \<times> 'w word printed list)" where
  "Print top_percent max_number_of_contexts hp =
     (let hp1 = hp\<lparr>allocations :=
                    Sort (\<lambda>a b. total_size a > total_size b) (allocations hp)\<rparr>
      in if total_allocated_user_size hp1 = 0 then Inl CHECK_failed
         else Inr (hp1,
           Print_loop hp1 top_percent max_number_of_contexts 0 0
             [Header (total_allocated_user_size hp1) (total_allocated_count hp1)
                (total_quarantined_user_size hp1) (total_quarantined_count hp1)
                (total_other_count hp1)
                (total_allocated_count hp1 + total_quarantined_count hp1 + total_other_count hp1)
                top_percent max_number_of_contexts]))"

text \<open>The site lines of an output, in the order printed, each as
  (\<^verbatim>\<open>total_size\<close>, percentage, \<^verbatim>\<open>count\<close>).\<close>

fun site_lines :: "'w word printed list \<Rightarrow> ('w word \<times> 'w word \<times> 'w word) list" where
  "site_lines [] = []"
| "site_lines (Site_line s p c # out) = (s, p, c) # site_lines out"
| "site_lines (_ # out) = site_lines out"

subsection \<open>The snapshot coordinator\<close>

text \<open>The process as the coordinator sees it: the heap chunks that \<^verbatim>\<open>ForEachChunk\<close> will
  enumerate, the value of \<^verbatim>\<open>Verbosity()\<close>, the locks the calling thread holds (latest
  first), and the trace of everything done so far.\<close>

datatype lock = ThreadRegistry | Allocator

datatype 'u event =
    Acquire lock
  | Release lock
  | Suspended
  | Resumed
  | Printed "'u printed"
  | Accumulated_stats

record (overloaded) 'w world =
  heap :: "'w AsanChunkView list"
  Verbosity :: int
  held :: "lock list"
  trace :: "'w word event list"

text \<open>Modelled from the spec: the four lock functions of \<^verbatim>\<open>__lsan\<close> are not part of the
  source at hand. The thread registry lock guards the set of live threads, the allocator
  lock the directory of chunks; taking or dropping one is recorded in the trace.\<close>

definition LockThreadRegistry :: "'w::len world \<Rightarrow> 'w world" where
  "LockThreadRegistry w =
     w\<lparr>held := ThreadRegistry # held w, trace := trace w @ [Acquire ThreadRegistry]\<rparr>"

definition LockAllocator :: "'w::len world \<Rightarrow> 'w world" where
  "LockAllocator w = w\<lparr>held := Allocator # held w, trace := trace w @ [Acquire Allocator]\<rparr>"

definition UnlockAllocator :: "'w::len world \<Rightarrow> 'w world" where
  "UnlockAllocator w =
     w\<lparr>held := remove1 Allocator (held w), trace := trace w @ [Release Allocator]\<rparr>"

definition UnlockThreadRegistry :: "'w::len world \<Rightarrow> 'w world" where
  "UnlockThreadRegistry w =
     w\<lparr>held := remove1 ThreadRegistry (held w), trace := trace w @ [Release ThreadRegistry]\<rparr>"

text \<open>\<^verbatim>\<open>struct DoStopTheWorldParam { StopTheWorldCallback callback; void *argument; }\<close>.
  The argument that \<^verbatim>\<open>__sanitizer_print_memory_profile\<close> passes is the array
  \<^verbatim>\<open>uptr Arg[2]\<close>, here the pair (\<^verbatim>\<open>Arg[0]\<close>, \<^verbatim>\<open>Arg[1]\<close>). A callback may end the
  process (a failed \<^verbatim>\<open>CHECK\<close>). Its first parameter, the list of suspended threads, is
  not read by \<^verbatim>\<open>MemoryProfileCB\<close> and is left out.\<close>

record (overloaded) 'w DoStopTheWorldParam =
  callback :: "'w word \<times> 'w word \<Rightarrow> 'w world \<Rightarrow> error + 'w world"
  argument :: "'w word \<times> 'w word"

text \<open>Modelled from the spec: \<^verbatim>\<open>__sanitizer::StopTheWorld\<close> is not part of the source at
  hand. Given a callback and an opaque argument it suspends all other threads, invokes the
  callback exactly once, then resumes them.\<close>

definition StopTheWorld ::
  "('w::len word \<times> 'w word \<Rightarrow> 'w world \<Rightarrow> error + 'w world) \<Rightarrow> 'w word \<times> 'w word
     \<Rightarrow> 'w world \<Rightarrow> error + 'w world" where
  "StopTheWorld cb arg w =
     (case cb arg (w\<lparr>trace := trace w @ [Suspended]\<rparr>) of
        Inl e \<Rightarrow> Inl e
      | Inr w1 \<Rightarrow> Inr (w1\<lparr>trace := trace w1 @ [Resumed]\<rparr>))"

text \<open>\<^verbatim>\<open>LockDefStuffAndStopTheWorld\<close>: five calls in a row. The entry point
  \<^verbatim>\<open>__sanitizer_print_memory_profile\<close> reaches it with \<^verbatim>\<open>MemoryProfileCB\<close> as the
  callback, directly or from inside \<^verbatim>\<open>dl_iterate_phdr\<close>.\<close>

definition LockDefStuffAndStopTheWorld ::
  "'w::len DoStopTheWorldParam \<Rightarrow> 'w world \<Rightarrow> error + 'w world" where
  "LockDefStuffAndStopTheWorld param w =
     (let w1 = LockThreadRegistry w;
          w2 = LockAllocator w1
      in case StopTheWorld (callback param) (argument param) w2 of
           Inl e \<Rightarrow> Inl e
         | Inr w3 \<Rightarrow>
             (let w4 = UnlockAllocator w3
              in Inr (UnlockThreadRegistry w4)))"

text \<open>\<^verbatim>\<open>MemoryProfileCB\<close>: a fresh \<^verbatim>\<open>HeapProfile\<close>, fed every chunk, then printed;
  \<^verbatim>\<open>__asan_print_accumulated_stats\<close> follows when \<^verbatim>\<open>Verbosity()\<close> is not zero.\<close>

definition MemoryProfileCB :: "'w::len word \<times> 'w word \<Rightarrow> 'w world \<Rightarrow> error + 'w world" where
  "MemoryProfileCB Arg w =
     (let hp = ForEachChunk (heap w) HeapProfile_init
      in case Print (fst Arg) (snd Arg) hp of
           Inl e \<Rightarrow> Inl e
         | Inr (hp1, out) \<Rightarrow>
             (let w1 = w\<lparr>trace := trace w @ map Printed out\<rparr>
              in Inr (if Verbosity w1 \<noteq> 0 then w1\<lparr>trace := trace w1 @ [Accumulated_stats]\<rparr>
                      else w1)))"

subsection \<open>Notions used to state the properties\<close>

text \<open>The aggregator after a sequence of chunks: what \<^verbatim>\<open>MemoryProfileCB\<close> hands to
  \<^verbatim>\<open>Print\<close>.\<close>

definition snapshot :: "'w::len AsanChunkView list \<Rightarrow> 'w HeapProfile" where
  "snapshot chunks = ForEachChunk chunks HeapProfile_init"

text \<open>A chunk view written in one line, for examples.\<close>

definition chunk :: "bool \<Rightarrow> bool \<Rightarrow> 'w::len word \<Rightarrow> u32 \<Rightarrow> 'w AsanChunkView" where
  "chunk a q sz i = \<lparr>IsAllocated = a, IsQuarantined = q, UsedSize = sz, GetAllocStackId = i\<rparr>"

text \<open>By how much each of the three chunk counters moved between two profiles.\<close>

definition counter_steps :: "'w::len HeapProfile \<Rightarrow> 'w HeapProfile \<Rightarrow> 'w word list" where
  "counter_steps hp hp1 =
     [total_allocated_count hp1 - total_allocated_count hp,
      total_quarantined_count hp1 - total_quarantined_count hp,
      total_other_count hp1 - total_other_count hp]"

text \<open>The allocated chunks of one site, the record that sums them up, and the ids of the
  sites that a sequence of chunks attributes memory to.\<close>

definition site_chunks :: "u32 \<Rightarrow> 'w::len AsanChunkView list \<Rightarrow> 'w AsanChunkView list" where
  "site_chunks i chunks = filter (\<lambda>cv. IsAllocated cv \<and> GetAllocStackId cv = i) chunks"

definition site_of :: "'w::len AsanChunkView list \<Rightarrow> u32 \<Rightarrow> 'w AllocationSite" where
  "site_of chunks i =
     \<lparr>id' = i, total_size = sum_list (map UsedSize (site_chunks i chunks)),
      count' = of_nat (length (site_chunks i chunks))\<rparr>"

definition site_ids :: "'w::len AsanChunkView list \<Rightarrow> u32 set" where
  "site_ids chunks =
     set (filter (\<lambda>i. i \<noteq> 0) (map GetAllocStackId (filter IsAllocated chunks)))"

text \<open>The bytes of the allocated chunks, added up as natural numbers (no wrap-around), and
  the part of them that carries no allocation stack (id 0). The chunks of a heap are
  disjoint regions of one address space, so on every heap that \<^verbatim>\<open>ForEachChunk\<close> can
  enumerate \<open>allocated_bytes\<close> is below \<open>2 ^ w\<close> for the width \<open>w\<close> of \<^verbatim>\<open>uptr\<close>.\<close>

definition allocated_bytes :: "'w::len AsanChunkView list \<Rightarrow> nat" where
  "allocated_bytes chunks = sum_list (map (\<lambda>cv. unat (UsedSize cv)) (filter IsAllocated chunks))"

definition unattributed :: "'w::len AsanChunkView list \<Rightarrow> 'w AsanChunkView list" where
  "unattributed chunks = filter (\<lambda>cv. IsAllocated cv \<and> GetAllocStackId cv = 0) chunks"

text \<open>The loop of \<^verbatim>\<open>Print\<close> read off a list of sites instead of an index: it prints a
  site, adds its size to the running total, and goes on to the next site only while the
  percentage test fails. \<open>site_output\<close> is what the loop body prints for one site.\<close>

fun printed_sites ::
  "'w::len word \<Rightarrow> 'w word \<Rightarrow> 'w word \<Rightarrow> 'w AllocationSite list \<Rightarrow> 'w AllocationSite list" where
  "printed_sites allocated top_percent total_shown [] = []"
| "printed_sites allocated top_percent total_shown (a # as) =
     a # (if (total_shown + total_size a) * 100 div allocated > top_percent then []
          else printed_sites allocated top_percent (total_shown + total_size a) as)"

definition site_output :: "'w::len word \<Rightarrow> 'w AllocationSite \<Rightarrow> 'w word printed list" where
  "site_output allocated a =
     [Site_line (total_size a) (total_size a * 100 div allocated) (count' a),
      Stack_trace (id' a)]"

text \<open>The vector of sites as \<^verbatim>\<open>Print\<close> leaves it after its call of \<^verbatim>\<open>Sort\<close>.\<close>

definition sorted_allocations :: "'w::len HeapProfile \<Rightarrow> 'w AllocationSite list" where
  "sorted_allocations hp = Sort (\<lambda>a b. total_size a > total_size b) (allocations hp)"

section \<open>Properties of the aggregator\<close>

lemma Insert_ids: "set (map id' (Insert i sz as)) = insert i (set (map id' as))"
  by (induction as) auto

lemma Insert_distinct: "distinct (map id' as) \<Longrightarrow> distinct (map id' (Insert i sz as))"
proof (induction as)
  case Nil
  then show ?case by simp
next
  case (Cons a as)
  have "set (map id' (Insert i sz as)) = insert i (set (map id' as))" by (rule Insert_ids)
  with Cons show ?case by auto
qed

lemma Insert_present:
  "i \<in> set (map id' as) \<Longrightarrow> distinct (map id' as) \<Longrightarrow>
   Insert i sz as =
     map (\<lambda>a. if id' a = i then a\<lparr>total_size := total_size a + sz, count' := count' a + 1\<rparr> else a) as"
proof (induction as)
  case Nil
  then show ?case by simp
next
  case (Cons a as)
  show ?case
  proof (cases "id' a = i")
    case True
    with Cons.prems have "i \<notin> set (map id' as)" by auto
    then have "map (\<lambda>a. if id' a = i then a\<lparr>total_size := total_size a + sz, count' := count' a + 1\<rparr> else a) as = as"
      by (induction as) auto
    with True show ?thesis by simp
  next
    case False
    with Cons show ?thesis by auto
  qed
qed

lemma Insert_absent:
  "i \<notin> set (map id' as) \<Longrightarrow> Insert i sz as = as @ [\<lparr>id' = i, total_size = sz, count' = 1\<rparr>]"
  by (induction as) auto

lemma Insert_sum: "sum_list (map total_size (Insert i sz as)) = sum_list (map total_size as) + sz"
  by (induction as) (auto simp: algebra_simps)

lemma ForEachChunk_snoc:
  "ForEachChunk (chunks @ [cv]) hp = ProcessChunk (ForEachChunk chunks hp) cv"
  by (simp add: ForEachChunk_def)

lemma ForEachChunk_Nil: "ForEachChunk [] hp = hp"
  by (simp add: ForEachChunk_def)


lemma site_chunks_snoc:
  "site_chunks i (chunks @ [cv]) =
     (if IsAllocated cv \<and> GetAllocStackId cv = i then site_chunks i chunks @ [cv]
      else site_chunks i chunks)"
  by (simp add: site_chunks_def)

lemma site_ids_alt:
  "site_ids chunks = {i. i \<noteq> 0 \<and> (\<exists>cv \<in> set chunks. IsAllocated cv \<and> GetAllocStackId cv = i)}"
  by (auto simp: site_ids_def)

lemma site_ids_snoc:
  "site_ids (chunks @ [cv]) =
     (if IsAllocated cv \<and> GetAllocStackId cv \<noteq> 0 then insert (GetAllocStackId cv) (site_ids chunks)
      else site_ids chunks)"
  by (auto simp: site_ids_def)

lemma site_chunks_empty: "i \<noteq> 0 \<Longrightarrow> i \<notin> site_ids chunks \<Longrightarrow> site_chunks i chunks = []"
  by (auto simp: site_ids_alt site_chunks_def filter_empty_conv)

lemma allocations_ProcessChunk:
  "allocations (ProcessChunk hp cv) =
     (if IsAllocated cv \<and> GetAllocStackId cv \<noteq> 0
      then Insert (GetAllocStackId cv) (UsedSize cv) (allocations hp) else allocations hp)"
  by (simp add: ProcessChunk_def Let_def)

lemma sites_invariant:
  fixes chunks :: "'w::len AsanChunkView list"
  defines "hp \<equiv> ForEachChunk chunks HeapProfile_init"
  shows "distinct (map id' (allocations hp)) \<and> set (map id' (allocations hp)) = site_ids chunks
         \<and> (\<forall>a \<in> set (allocations hp). a = site_of chunks (id' a))"
  unfolding hp_def
proof (induction chunks rule: rev_induct)
  case Nil
  show ?case by (simp add: ForEachChunk_Nil HeapProfile_init_def site_ids_def)
next
  case (snoc cv chunks)
  define hp where "hp = ForEachChunk chunks (HeapProfile_init :: 'w HeapProfile)"
  from snoc have d: "distinct (map id' (allocations hp))"
    and ids: "set (map id' (allocations hp)) = site_ids chunks"
    and val: "\<forall>a \<in> set (allocations hp). a = site_of chunks (id' a)"
    by (simp_all add: hp_def)
  have step: "ForEachChunk (chunks @ [cv]) HeapProfile_init = ProcessChunk hp cv"
    by (simp add: ForEachChunk_snoc hp_def)
  show ?case
  proof (cases "IsAllocated cv \<and> GetAllocStackId cv \<noteq> 0")
    case False
    then have "allocations (ProcessChunk hp cv) = allocations hp"
      by (auto simp: allocations_ProcessChunk)
    moreover have "site_ids (chunks @ [cv]) = site_ids chunks"
      using False by (auto simp: site_ids_snoc)
    moreover have "\<forall>a \<in> set (allocations hp). site_of (chunks @ [cv]) (id' a) = site_of chunks (id' a)"
    proof
      fix a assume "a \<in> set (allocations hp)"
      then have "id' a \<in> site_ids chunks" using ids by auto
      then have "id' a \<noteq> 0" by (simp add: site_ids_alt)
      with False show "site_of (chunks @ [cv]) (id' a) = site_of chunks (id' a)"
        by (auto simp: site_of_def site_chunks_snoc)
    qed
    ultimately show ?thesis using d ids val by (simp add: step)
  next
    case True
    define i where "i = GetAllocStackId cv"
    define sz where "sz = UsedSize cv"
    have al: "allocations (ProcessChunk hp cv) = Insert i sz (allocations hp)"
      using True by (simp add: allocations_ProcessChunk i_def sz_def)
    have ids': "site_ids (chunks @ [cv]) = insert i (site_ids chunks)"
      using True by (simp add: site_ids_snoc i_def)
    have d': "distinct (map id' (Insert i sz (allocations hp)))"
      using d by (rule Insert_distinct)
    have s': "set (map id' (Insert i sz (allocations hp))) = insert i (site_ids chunks)"
      using ids by (simp only: Insert_ids)
    have other: "site_of (chunks @ [cv]) j = site_of chunks j" if "j \<noteq> i" for j
      using that by (auto simp: site_of_def site_chunks_snoc i_def)
    have this_one: "site_of (chunks @ [cv]) i =
        (site_of chunks i)\<lparr>total_size := total_size (site_of chunks i) + sz,
                            count' := count' (site_of chunks i) + 1\<rparr>"
      using True by (simp add: site_of_def site_chunks_snoc i_def sz_def)
    have v': "\<forall>a \<in> set (Insert i sz (allocations hp)). a = site_of (chunks @ [cv]) (id' a)"
    proof (cases "i \<in> set (map id' (allocations hp))")
      case True
      have eq: "Insert i sz (allocations hp) =
          map (\<lambda>a. if id' a = i then a\<lparr>total_size := total_size a + sz, count' := count' a + 1\<rparr> else a)
            (allocations hp)"
        using True d by (rule Insert_present)
      show ?thesis
      proof
        fix b assume "b \<in> set (Insert i sz (allocations hp))"
        then obtain a where a: "a \<in> set (allocations hp)"
          and b: "b = (if id' a = i then a\<lparr>total_size := total_size a + sz, count' := count' a + 1\<rparr> else a)"
          unfolding eq by auto
        from a val have av: "a = site_of chunks (id' a)" by blast
        show "b = site_of (chunks @ [cv]) (id' b)"
        proof (cases "id' a = i")
          case True
          then have "b = a\<lparr>total_size := total_size a + sz, count' := count' a + 1\<rparr>"
            using b by simp
          moreover have "a = site_of chunks i" using av True by simp
          ultimately show ?thesis using this_one by (simp add: site_of_def)
        next
          case False
          then have "b = a" using b by simp
          with av other [OF False] show ?thesis by simp
        qed
      qed
    next
      case False
      then have eq: "Insert i sz (allocations hp) =
           allocations hp @ [\<lparr>id' = i, total_size = sz, count' = 1\<rparr>]"
        by (rule Insert_absent)
      have "i \<noteq> 0" using True by (simp add: i_def)
      moreover have "i \<notin> site_ids chunks" using False ids by simp
      ultimately have "site_chunks i chunks = []" by (rule site_chunks_empty)
      then have new: "site_of (chunks @ [cv]) i = \<lparr>id' = i, total_size = sz, count' = 1\<rparr>"
        using True by (simp add: site_of_def site_chunks_snoc i_def sz_def)
      show ?thesis
      proof
        fix b assume "b \<in> set (Insert i sz (allocations hp))"
        then consider "b \<in> set (allocations hp)" | "b = \<lparr>id' = i, total_size = sz, count' = 1\<rparr>"
          unfolding eq by auto
        then show "b = site_of (chunks @ [cv]) (id' b)"
        proof cases
          case 1
          then have "id' b \<noteq> i" using False by auto
          with 1 val other show ?thesis by simp
        next
          case 2
          then show ?thesis using new by simp
        qed
      qed
    qed
    show ?thesis using d' s' v' by (simp add: step al ids')
  qed
qed


lemma totals_ProcessChunk:
  "total_allocated_user_size (ProcessChunk hp cv) =
     total_allocated_user_size hp + (if IsAllocated cv then UsedSize cv else 0)"
  "total_allocated_count (ProcessChunk hp cv) =
     total_allocated_count hp + (if IsAllocated cv then 1 else 0)"
  "total_quarantined_user_size (ProcessChunk hp cv) =
     total_quarantined_user_size hp + (if \<not> IsAllocated cv \<and> IsQuarantined cv then UsedSize cv else 0)"
  "total_quarantined_count (ProcessChunk hp cv) =
     total_quarantined_count hp + (if \<not> IsAllocated cv \<and> IsQuarantined cv then 1 else 0)"
  "total_other_count (ProcessChunk hp cv) =
     total_other_count hp + (if \<not> IsAllocated cv \<and> \<not> IsQuarantined cv then 1 else 0)"
  by (simp_all add: ProcessChunk_def Let_def)

lemma totals_ForEachChunk:
  fixes chunks :: "'w::len AsanChunkView list"
  defines "hp \<equiv> ForEachChunk chunks HeapProfile_init"
  shows "total_allocated_user_size hp = sum_list (map UsedSize (filter IsAllocated chunks))"
    and "total_allocated_count hp = of_nat (length (filter IsAllocated chunks))"
    and "total_quarantined_user_size hp =
           sum_list (map UsedSize (filter (\<lambda>cv. \<not> IsAllocated cv \<and> IsQuarantined cv) chunks))"
    and "total_quarantined_count hp =
           of_nat (length (filter (\<lambda>cv. \<not> IsAllocated cv \<and> IsQuarantined cv) chunks))"
    and "total_other_count hp =
           of_nat (length (filter (\<lambda>cv. \<not> IsAllocated cv \<and> \<not> IsQuarantined cv) chunks))"
  unfolding hp_def
  by (induction chunks rule: rev_induct;
      simp add: ForEachChunk_snoc ForEachChunk_Nil HeapProfile_init_def totals_ProcessChunk)+

lemma length_filter_three:
  "length (filter P xs) + length (filter (\<lambda>x. \<not> P x \<and> Q x) xs)
     + length (filter (\<lambda>x. \<not> P x \<and> \<not> Q x) xs) = length xs"
  by (induction xs) auto



lemma of_nat_sum3:
  fixes a q r n :: nat
  shows "a + q + r = n \<Longrightarrow> (of_nat a :: 'w::len word) + of_nat q + of_nat r = of_nat n"
  by auto

lemma unat_sum3:
  fixes a q r n :: nat
  assumes "a + q + r = n" and "n < 2 ^ LENGTH('w::len)"
  shows "unat (of_nat a :: 'w word) + unat (of_nat q :: 'w word) + unat (of_nat r :: 'w word) = n"
proof -
  from assms have "a < 2 ^ LENGTH('w)" "q < 2 ^ LENGTH('w)" "r < 2 ^ LENGTH('w)" by linarith+
  then have "unat (of_nat a :: 'w word) = a" "unat (of_nat q :: 'w word) = q"
    "unat (of_nat r :: 'w word) = r"
    by (simp_all add: unat_of_nat)
  with assms show ?thesis by simp
qed

lemma counts_snapshot:
  fixes chunks :: "'w::len AsanChunkView list"
  shows "total_allocated_count (snapshot chunks) = of_nat (length (filter IsAllocated chunks))"
    and "total_quarantined_count (snapshot chunks) =
           of_nat (length (filter (\<lambda>cv. \<not> IsAllocated cv \<and> IsQuarantined cv) chunks))"
    and "total_other_count (snapshot chunks) =
           of_nat (length (filter (\<lambda>cv. \<not> IsAllocated cv \<and> \<not> IsQuarantined cv) chunks))"
  unfolding snapshot_def by (rule totals_ForEachChunk)+

text \<open>
  Claim C5 (conservation). After any sequence of observed chunks the three chunk counters
  add up to the number of chunks observed: as \<^verbatim>\<open>uptr\<close> values always, and as natural
  numbers whenever that number fits into an \<^verbatim>\<open>uptr\<close>. Every single observation moves
  exactly one of the three counters, by one, and leaves the other two alone.
\<close>
theorem conservation:
  fixes chunks :: "'w::len AsanChunkView list" and hp :: "'w HeapProfile" and cv :: "'w AsanChunkView"
  shows "total_allocated_count (snapshot chunks) + total_quarantined_count (snapshot chunks)
           + total_other_count (snapshot chunks) = of_nat (length chunks)
       \<and> (length chunks < 2 ^ LENGTH('w) \<longrightarrow>
           unat (total_allocated_count (snapshot chunks))
             + unat (total_quarantined_count (snapshot chunks))
             + unat (total_other_count (snapshot chunks)) = length chunks)
       \<and> counter_steps hp (ProcessChunk hp cv) \<in> {[1, 0, 0], [0, 1, 0], [0, 0, 1]}"
proof (intro conjI impI)
  show "total_allocated_count (snapshot chunks) + total_quarantined_count (snapshot chunks)
           + total_other_count (snapshot chunks) = of_nat (length chunks)"
    unfolding counts_snapshot by (rule of_nat_sum3 [OF length_filter_three])
  show "unat (total_allocated_count (snapshot chunks))
             + unat (total_quarantined_count (snapshot chunks))
             + unat (total_other_count (snapshot chunks)) = length chunks"
    if "length chunks < 2 ^ LENGTH('w)"
    unfolding counts_snapshot by (rule unat_sum3 [OF length_filter_three that])
  show "counter_steps hp (ProcessChunk hp cv) \<in> {[1, 0, 0], [0, 1, 0], [0, 0, 1]}"
    by (simp add: counter_steps_def totals_ProcessChunk)
qed




lemma Insert_sum_nat:
  fixes as :: "'w::len AllocationSite list"
  shows "(\<Sum>a\<leftarrow>as. unat (total_size a)) + unat sz < 2 ^ LENGTH('w) \<Longrightarrow>
         (\<Sum>a\<leftarrow>Insert i sz as. unat (total_size a)) = (\<Sum>a\<leftarrow>as. unat (total_size a)) + unat sz"
proof (induction as)
  case Nil
  then show ?case by simp
next
  case (Cons a as)
  show ?case
  proof (cases "id' a = i")
    case True
    from Cons.prems have "unat (total_size a) + unat sz < 2 ^ LENGTH('w)" by simp
    then have "unat (total_size a + sz) = unat (total_size a) + unat sz"
      by (simp only: unat_add_lem)
    with True show ?thesis by simp
  next
    case False
    from Cons.prems have "(\<Sum>a\<leftarrow>as. unat (total_size a)) + unat sz < 2 ^ LENGTH('w)" by simp
    then have "(\<Sum>a\<leftarrow>Insert i sz as. unat (total_size a)) = (\<Sum>a\<leftarrow>as. unat (total_size a)) + unat sz"
      by (rule Cons.IH)
    with False show ?thesis by simp
  qed
qed

lemma allocated_bytes_snoc:
  "allocated_bytes (chunks @ [cv]) =
     allocated_bytes chunks + (if IsAllocated cv then unat (UsedSize cv) else 0)"
  by (simp add: allocated_bytes_def)

lemma unattributed_snoc:
  "unattributed (chunks @ [cv]) =
     (if IsAllocated cv \<and> GetAllocStackId cv = 0 then unattributed chunks @ [cv]
      else unattributed chunks)"
  by (simp add: unattributed_def)

lemma snapshot_snoc: "snapshot (chunks @ [cv]) = ProcessChunk (snapshot chunks) cv"
  by (simp add: snapshot_def ForEachChunk_snoc)

lemma snapshot_Nil: "snapshot [] = HeapProfile_init"
  by (simp add: snapshot_def ForEachChunk_Nil)

lemma attribution_nat:
  fixes chunks :: "'w::len AsanChunkView list"
  shows "allocated_bytes chunks < 2 ^ LENGTH('w) \<Longrightarrow>
     unat (total_allocated_user_size (snapshot chunks)) = allocated_bytes chunks
     \<and> (\<Sum>a\<leftarrow>allocations (snapshot chunks). unat (total_size a))
         + (\<Sum>cv\<leftarrow>unattributed chunks. unat (UsedSize cv)) = allocated_bytes chunks"
proof (induction chunks rule: rev_induct)
  case Nil
  show ?case
    by (simp add: snapshot_Nil HeapProfile_init_def allocated_bytes_def unattributed_def)
next
  case (snoc cv chunks)
  let ?hp = "snapshot chunks"
  let ?S = "\<Sum>a\<leftarrow>allocations ?hp. unat (total_size a)"
  let ?U = "\<Sum>cv\<leftarrow>unattributed chunks. unat (UsedSize cv)"
  from snoc.prems have small: "allocated_bytes chunks < 2 ^ LENGTH('w)"
    by (simp add: allocated_bytes_snoc split: if_splits)
  from snoc.IH [OF small]
  have tot: "unat (total_allocated_user_size ?hp) = allocated_bytes chunks"
    and sum: "?S + ?U = allocated_bytes chunks" by simp_all
  show ?case
  proof (cases "IsAllocated cv")
    case False
    then show ?thesis using tot sum
      by (simp add: snapshot_snoc totals_ProcessChunk allocations_ProcessChunk
          allocated_bytes_snoc unattributed_snoc)
  next
    case True
    with snoc.prems have fits: "allocated_bytes chunks + unat (UsedSize cv) < 2 ^ LENGTH('w)"
      by (simp add: allocated_bytes_snoc)
    then have "unat (total_allocated_user_size ?hp) + unat (UsedSize cv) < 2 ^ LENGTH('w)"
      using tot by simp
    then have "unat (total_allocated_user_size ?hp + UsedSize cv)
        = unat (total_allocated_user_size ?hp) + unat (UsedSize cv)"
      by (simp only: unat_add_lem)
    then have t': "unat (total_allocated_user_size ?hp + UsedSize cv)
        = allocated_bytes chunks + unat (UsedSize cv)"
      using tot by simp
    show ?thesis
    proof (cases "GetAllocStackId cv = 0")
      case True
      with \<open>IsAllocated cv\<close> t' sum show ?thesis
        by (simp add: snapshot_snoc totals_ProcessChunk allocations_ProcessChunk
            allocated_bytes_snoc unattributed_snoc)
    next
      case False
      from sum fits have "?S + unat (UsedSize cv) < 2 ^ LENGTH('w)" by linarith
      then have "(\<Sum>a\<leftarrow>Insert (GetAllocStackId cv) (UsedSize cv) (allocations ?hp). unat (total_size a))
          = ?S + unat (UsedSize cv)"
        by (rule Insert_sum_nat)
      with False \<open>IsAllocated cv\<close> t' sum show ?thesis
        by (simp add: snapshot_snoc totals_ProcessChunk allocations_ProcessChunk
            allocated_bytes_snoc unattributed_snoc)
    qed
  qed
qed

lemma attribution_word:
  fixes chunks :: "'w::len AsanChunkView list"
  shows "sum_list (map total_size (allocations (snapshot chunks)))
           + sum_list (map UsedSize (unattributed chunks))
         = total_allocated_user_size (snapshot chunks)"
proof (induction chunks rule: rev_induct)
  case Nil
  show ?case by (simp add: snapshot_Nil HeapProfile_init_def unattributed_def)
next
  case (snoc cv chunks)
  then show ?case
    by (simp add: snapshot_snoc totals_ProcessChunk allocations_ProcessChunk
        unattributed_snoc Insert_sum)
qed

text \<open>
  Claim C4 (attribution sum). After any sequence of observed chunks the sum of
  \<^verbatim>\<open>total_size\<close> over all site records plus the bytes of the allocated chunks observed
  with stack id 0 equals the total of allocated bytes. The sums are those of \<^verbatim>\<open>uptr\<close>;
  they are the sums of natural numbers whenever the allocated bytes fit into an \<^verbatim>\<open>uptr\<close>.
\<close>
theorem attribution_sum:
  fixes chunks :: "'w::len AsanChunkView list"
  shows "sum_list (map total_size (allocations (snapshot chunks)))
           + sum_list (map UsedSize (unattributed chunks))
         = total_allocated_user_size (snapshot chunks)
       \<and> (allocated_bytes chunks < 2 ^ LENGTH('w) \<longrightarrow>
           (\<Sum>a\<leftarrow>allocations (snapshot chunks). unat (total_size a))
             + (\<Sum>cv\<leftarrow>unattributed chunks. unat (UsedSize cv))
           = unat (total_allocated_user_size (snapshot chunks)))"
  using attribution_word [of chunks] attribution_nat [of chunks] by simp

text \<open>
  Claim C6 (one record per site). After any sequence of observed chunks the ids of the site
  records are pairwise distinct and none of them is 0. Observing one more allocated chunk
  whose non-zero id is already present leaves the list as long as it was, adds the chunk's
  size to the \<^verbatim>\<open>total_size\<close> of the record with that id, adds one to its \<^verbatim>\<open>count\<close>, and
  changes no other record.
\<close>
theorem site_uniqueness:
  fixes chunks :: "'w::len AsanChunkView list" and cv :: "'w AsanChunkView"
  shows "distinct (map id' (allocations (snapshot chunks)))
       \<and> 0 \<notin> set (map id' (allocations (snapshot chunks)))
       \<and> (IsAllocated cv \<and> GetAllocStackId cv \<noteq> 0
            \<and> GetAllocStackId cv \<in> set (map id' (allocations (snapshot chunks))) \<longrightarrow>
          allocations (ProcessChunk (snapshot chunks) cv) =
            map (\<lambda>a. if id' a = GetAllocStackId cv
                      then a\<lparr>total_size := total_size a + UsedSize cv, count' := count' a + 1\<rparr>
                      else a)
              (allocations (snapshot chunks)))"
proof (intro conjI impI)
  have inv: "distinct (map id' (allocations (snapshot chunks)))"
    "set (map id' (allocations (snapshot chunks))) = site_ids chunks"
    using sites_invariant [of chunks] by (simp_all add: snapshot_def)
  show "distinct (map id' (allocations (snapshot chunks)))" by (rule inv)
  show "0 \<notin> set (map id' (allocations (snapshot chunks)))"
    unfolding inv by (simp add: site_ids_alt)
  assume cv: "IsAllocated cv \<and> GetAllocStackId cv \<noteq> 0
            \<and> GetAllocStackId cv \<in> set (map id' (allocations (snapshot chunks)))"
  then have "allocations (ProcessChunk (snapshot chunks) cv)
      = Insert (GetAllocStackId cv) (UsedSize cv) (allocations (snapshot chunks))"
    by (simp add: allocations_ProcessChunk)
  also have "\<dots> = map (\<lambda>a. if id' a = GetAllocStackId cv
                      then a\<lparr>total_size := total_size a + UsedSize cv, count' := count' a + 1\<rparr>
                      else a)
              (allocations (snapshot chunks))"
    using cv inv(1) by (intro Insert_present) simp_all
  finally show "allocations (ProcessChunk (snapshot chunks) cv) =
            map (\<lambda>a. if id' a = GetAllocStackId cv
                      then a\<lparr>total_size := total_size a + UsedSize cv, count' := count' a + 1\<rparr>
                      else a)
              (allocations (snapshot chunks))" .
qed


lemma sum_list_filter_mset_cong:
  fixes f :: "'a \<Rightarrow> 'b::comm_monoid_add"
  assumes "mset xs = mset ys"
  shows "sum_list (map f (filter P xs)) = sum_list (map f (filter P ys))"
proof -
  have "mset (map f (filter P xs)) = mset (map f (filter P ys))"
    using assms by (simp only: mset_map mset_filter)
  then have "sum_mset (mset (map f (filter P xs))) = sum_mset (mset (map f (filter P ys)))"
    by (rule arg_cong)
  then show ?thesis by (simp only: sum_mset_sum_list)
qed

lemma length_filter_mset_cong:
  assumes "mset xs = mset ys"
  shows "length (filter P xs) = length (filter P ys)"
proof -
  have "mset (filter P xs) = mset (filter P ys)"
    using assms by (simp only: mset_filter)
  then show ?thesis by (rule mset_eq_length)
qed

lemma site_of_mset_cong:
  fixes chunks1 chunks2 :: "'w::len AsanChunkView list"
  assumes "mset chunks1 = mset chunks2"
  shows "site_of chunks1 = site_of chunks2"
proof
  fix i
  show "site_of chunks1 i = site_of chunks2 i"
    unfolding site_of_def site_chunks_def
    using sum_list_filter_mset_cong [OF assms, of UsedSize]
          length_filter_mset_cong [OF assms]
    by simp
qed

lemma site_ids_mset_cong:
  fixes chunks1 chunks2 :: "'w::len AsanChunkView list"
  assumes "mset chunks1 = mset chunks2"
  shows "site_ids chunks1 = site_ids chunks2"
proof -
  from assms have "set chunks1 = set chunks2" by (rule mset_eq_setD)
  then show ?thesis by (simp add: site_ids_alt)
qed

lemma allocations_snapshot:
  fixes chunks :: "'w::len AsanChunkView list"
  shows "set (allocations (snapshot chunks)) = site_of chunks ` site_ids chunks"
proof -
  have ids: "set (map id' (allocations (snapshot chunks))) = site_ids chunks"
    and val: "\<forall>a \<in> set (allocations (snapshot chunks)). a = site_of chunks (id' a)"
    using sites_invariant [of chunks] by (simp_all add: snapshot_def)
  show ?thesis
  proof (intro equalityI subsetI)
    fix a assume a: "a \<in> set (allocations (snapshot chunks))"
    then have "id' a \<in> site_ids chunks" using ids by auto
    moreover from a val have "a = site_of chunks (id' a)" by blast
    ultimately show "a \<in> site_of chunks ` site_ids chunks" by (rule rev_image_eqI)
  next
    fix a assume "a \<in> site_of chunks ` site_ids chunks"
    then obtain i where i: "i \<in> site_ids chunks" and a: "a = site_of chunks i" by auto
    from i ids have "i \<in> id' ` set (allocations (snapshot chunks))" by simp
    then obtain b where b: "b \<in> set (allocations (snapshot chunks))" and "id' b = i"
      by blast
    with val have "b = site_of chunks i" by auto
    with a b show "a \<in> set (allocations (snapshot chunks))" by simp
  qed
qed

lemma distinct_allocations:
  fixes chunks :: "'w::len AsanChunkView list"
  shows "distinct (allocations (snapshot chunks))"
  using sites_invariant [of chunks] by (simp add: snapshot_def distinct_map)

lemma totals_snapshot:
  fixes chunks :: "'w::len AsanChunkView list"
  shows "total_allocated_user_size (snapshot chunks)
           = sum_list (map UsedSize (filter IsAllocated chunks))"
    and "total_quarantined_user_size (snapshot chunks) =
           sum_list (map UsedSize (filter (\<lambda>cv. \<not> IsAllocated cv \<and> IsQuarantined cv) chunks))"
  unfolding snapshot_def by (rule totals_ForEachChunk)+

text \<open>
  Claim C3 (order independence). Two sequences of chunks that are permutations of each other
  lead a fresh aggregator to the same five totals and to the same site records, as a set and
  as a multiset.
\<close>
theorem order_independence:
  fixes chunks1 chunks2 :: "'w::len AsanChunkView list"
  assumes "mset chunks1 = mset chunks2"
  shows "total_allocated_user_size (snapshot chunks1) = total_allocated_user_size (snapshot chunks2)
       \<and> total_allocated_count (snapshot chunks1) = total_allocated_count (snapshot chunks2)
       \<and> total_quarantined_user_size (snapshot chunks1)
           = total_quarantined_user_size (snapshot chunks2)
       \<and> total_quarantined_count (snapshot chunks1) = total_quarantined_count (snapshot chunks2)
       \<and> total_other_count (snapshot chunks1) = total_other_count (snapshot chunks2)
       \<and> set (allocations (snapshot chunks1)) = set (allocations (snapshot chunks2))
       \<and> mset (allocations (snapshot chunks1)) = mset (allocations (snapshot chunks2))"
proof (intro conjI)
  show "total_allocated_user_size (snapshot chunks1) = total_allocated_user_size (snapshot chunks2)"
    unfolding totals_snapshot by (rule sum_list_filter_mset_cong [OF assms])
  show "total_quarantined_user_size (snapshot chunks1)
           = total_quarantined_user_size (snapshot chunks2)"
    unfolding totals_snapshot by (rule sum_list_filter_mset_cong [OF assms])
  show "total_allocated_count (snapshot chunks1) = total_allocated_count (snapshot chunks2)"
    unfolding counts_snapshot by (simp only: length_filter_mset_cong [OF assms])
  show "total_quarantined_count (snapshot chunks1) = total_quarantined_count (snapshot chunks2)"
    unfolding counts_snapshot by (simp only: length_filter_mset_cong [OF assms])
  show "total_other_count (snapshot chunks1) = total_other_count (snapshot chunks2)"
    unfolding counts_snapshot by (simp only: length_filter_mset_cong [OF assms])
  show sets: "set (allocations (snapshot chunks1)) = set (allocations (snapshot chunks2))"
    unfolding allocations_snapshot
    by (simp only: site_ids_mset_cong [OF assms] site_of_mset_cong [OF assms])
  show "mset (allocations (snapshot chunks1)) = mset (allocations (snapshot chunks2))"
    using sets distinct_allocations [of chunks1] distinct_allocations [of chunks2]
    by (simp only: set_eq_iff_mset_eq_distinct)
qed

lemma snapshot_example:
  "snapshot [chunk True False (300::32 word) 7, chunk False True 50 0, chunk False False 0 0] =
    \<lparr>total_allocated_user_size = 300, total_allocated_count = 1,
     total_quarantined_user_size = 50, total_quarantined_count = 1,
     total_other_count = 1,
     allocations = [\<lparr>id' = 7, total_size = 300, count' = 1\<rparr>]\<rparr>"
  by (simp add: snapshot_def ForEachChunk_def ProcessChunk_def HeapProfile_init_def chunk_def)

theorem conservation_witness:
  "length [chunk True False (300::32 word) 7, chunk False True 50 0, chunk False False 0 0]
      < 2 ^ LENGTH(32)
   \<and> unat (total_allocated_count
        (snapshot [chunk True False (300::32 word) 7, chunk False True 50 0, chunk False False 0 0]))
     + unat (total_quarantined_count
        (snapshot [chunk True False (300::32 word) 7, chunk False True 50 0, chunk False False 0 0]))
     + unat (total_other_count
        (snapshot [chunk True False (300::32 word) 7, chunk False True 50 0, chunk False False 0 0]))
     = 3"
  using conservation [of "[chunk True False (300::32 word) 7, chunk False True 50 0, chunk False False 0 0]"]
  by simp


lemmas snapshot_eval = snapshot_def ForEachChunk_def ProcessChunk_def HeapProfile_init_def chunk_def

theorem order_independence_witness:
  "mset [chunk True False (300::32 word) 7, chunk True False 700 9, chunk True False 5 7]
     = mset [chunk True False 5 7, chunk True False (300::32 word) 7, chunk True False 700 9]
   \<and> set (allocations
        (snapshot [chunk True False (300::32 word) 7, chunk True False 700 9, chunk True False 5 7]))
     = {\<lparr>id' = 7, total_size = 305, count' = 2\<rparr>, \<lparr>id' = 9, total_size = 700, count' = 1\<rparr>}
   \<and> set (allocations
        (snapshot [chunk True False 5 7, chunk True False (300::32 word) 7, chunk True False 700 9]))
     = {\<lparr>id' = 7, total_size = 305, count' = 2\<rparr>, \<lparr>id' = 9, total_size = 700, count' = 1\<rparr>}"
proof -
  have h: "mset [chunk True False (300::32 word) 7, chunk True False 700 9, chunk True False 5 7]
     = mset [chunk True False 5 7, chunk True False (300::32 word) 7, chunk True False 700 9]"
    by simp
  have v: "set (allocations
        (snapshot [chunk True False (300::32 word) 7, chunk True False 700 9, chunk True False 5 7]))
     = {\<lparr>id' = 7, total_size = 305, count' = 2\<rparr>, \<lparr>id' = 9, total_size = 700, count' = 1\<rparr>}"
    by (simp add: snapshot_eval)
  from order_independence [OF h] h v show ?thesis by simp
qed

theorem attribution_sum_witness:
  "allocated_bytes [chunk True False (300::32 word) 7, chunk True False 50 0] < 2 ^ LENGTH(32)
   \<and> (\<Sum>a\<leftarrow>allocations (snapshot [chunk True False (300::32 word) 7, chunk True False 50 0]).
         unat (total_size a))
       + (\<Sum>cv\<leftarrow>unattributed [chunk True False (300::32 word) 7, chunk True False 50 0].
         unat (UsedSize cv))
     = 350"
proof -
  have h: "allocated_bytes [chunk True False (300::32 word) 7, chunk True False 50 0]
      < 2 ^ LENGTH(32)"
    by (simp add: allocated_bytes_def chunk_def)
  have t: "total_allocated_user_size
      (snapshot [chunk True False (300::32 word) 7, chunk True False 50 0]) = 350"
    by (simp add: snapshot_eval)
  from attribution_sum [of "[chunk True False (300::32 word) 7, chunk True False 50 0]"] h t
  show ?thesis by simp
qed

theorem site_uniqueness_witness:
  "IsAllocated (chunk True False (20::32 word) 7)
   \<and> GetAllocStackId (chunk True False (20::32 word) 7) \<noteq> 0
   \<and> GetAllocStackId (chunk True False (20::32 word) 7)
        \<in> set (map id' (allocations (snapshot [chunk True False (300::32 word) 7])))
   \<and> allocations (ProcessChunk (snapshot [chunk True False (300::32 word) 7])
        (chunk True False 20 7))
     = [\<lparr>id' = 7, total_size = 320, count' = 2\<rparr>]"
proof -
  have s: "allocations (snapshot [chunk True False (300::32 word) 7])
      = [\<lparr>id' = 7, total_size = 300, count' = 1\<rparr>]"
    by (simp add: snapshot_eval)
  have h: "IsAllocated (chunk True False (20::32 word) 7)
   \<and> GetAllocStackId (chunk True False (20::32 word) 7) \<noteq> 0
   \<and> GetAllocStackId (chunk True False (20::32 word) 7)
        \<in> set (map id' (allocations (snapshot [chunk True False (300::32 word) 7])))"
    unfolding s by (simp add: chunk_def)
  from site_uniqueness [of "[chunk True False (300::32 word) 7]" "chunk True False 20 7"] h
  have "allocations (ProcessChunk (snapshot [chunk True False (300::32 word) 7])
        (chunk True False 20 7))
     = map (\<lambda>a. if id' a = GetAllocStackId (chunk True False (20::32 word) 7)
                then a\<lparr>total_size := total_size a + UsedSize (chunk True False (20::32 word) 7),
                       count' := count' a + 1\<rparr>
                else a)
         (allocations (snapshot [chunk True False (300::32 word) 7]))"
    by blast
  then have "allocations (ProcessChunk (snapshot [chunk True False (300::32 word) 7])
        (chunk True False 20 7)) = [\<lparr>id' = 7, total_size = 320, count' = 2\<rparr>]"
    unfolding s by (simp add: chunk_def)
  with h show ?thesis by simp
qed

section \<open>Properties of the renderer and the coordinator\<close>

lemma Print_loop_done:
  "\<not> i < min (length (allocations hp)) (unat max_number_of_contexts) \<Longrightarrow>
   Print_loop hp top_percent max_number_of_contexts i total_shown out = out"
  by (subst Print_loop.simps) (simp only: if_False)

lemma Print_loop_stop:
  "i < min (length (allocations hp)) (unat max_number_of_contexts) \<Longrightarrow>
   (total_shown + total_size (allocations hp ! i)) * 100 div total_allocated_user_size hp
      > top_percent \<Longrightarrow>
   Print_loop hp top_percent max_number_of_contexts i total_shown out =
     out @ site_output (total_allocated_user_size hp) (allocations hp ! i)"
  by (subst Print_loop.simps) (simp only: if_True Let_def site_output_def)

lemma Print_loop_go:
  "i < min (length (allocations hp)) (unat max_number_of_contexts) \<Longrightarrow>
   \<not> (total_shown + total_size (allocations hp ! i)) * 100 div total_allocated_user_size hp
      > top_percent \<Longrightarrow>
   Print_loop hp top_percent max_number_of_contexts i total_shown out =
     Print_loop hp top_percent max_number_of_contexts (i + 1)
       (total_shown + total_size (allocations hp ! i))
       (out @ site_output (total_allocated_user_size hp) (allocations hp ! i))"
  by (subst Print_loop.simps) (simp only: if_True if_False Let_def site_output_def)

lemma Print_loop_eq:
  "Print_loop hp top_percent max_number_of_contexts i total_shown out =
     out @ concat (map (site_output (total_allocated_user_size hp))
       (printed_sites (total_allocated_user_size hp) top_percent total_shown
          (drop i (take (unat max_number_of_contexts) (allocations hp)))))"
proof (induction "min (length (allocations hp)) (unat max_number_of_contexts) - i"
    arbitrary: i total_shown out)
  case 0
  let ?xs = "take (unat max_number_of_contexts) (allocations hp)"
  from 0 have fin: "\<not> i < min (length (allocations hp)) (unat max_number_of_contexts)"
    by linarith
  then have "length ?xs \<le> i" by (simp only: length_take not_less)
  then have "drop i ?xs = []" by (simp only: drop_all)
  then show ?case unfolding Print_loop_done [OF fin] by simp
next
  case (Suc n)
  let ?xs = "take (unat max_number_of_contexts) (allocations hp)"
  let ?a = "allocations hp ! i"
  let ?T = "total_allocated_user_size hp"
  from Suc.hyps(2) have more: "i < min (length (allocations hp)) (unat max_number_of_contexts)"
    by linarith
  then have len: "i < length ?xs" by (simp only: length_take)
  then have "drop i ?xs = ?xs ! i # drop (Suc i) ?xs"
    by (simp only: Cons_nth_drop_Suc)
  moreover have "?xs ! i = ?a" using len by simp
  ultimately have d: "drop i ?xs = ?a # drop (i + 1) ?xs" by simp
  show ?case
  proof (cases "(total_shown + total_size ?a) * 100 div ?T > top_percent")
    case True
    show ?thesis unfolding Print_loop_stop [OF more True] d
      by (simp only: printed_sites.simps True if_True list.map concat.simps append_Nil2)
  next
    case False
    from Suc.hyps(2) have "n = min (length (allocations hp)) (unat max_number_of_contexts) - (i + 1)"
      by linarith
    then have IH: "Print_loop hp top_percent max_number_of_contexts (i + 1)
         (total_shown + total_size ?a) (out @ site_output ?T ?a) =
        (out @ site_output ?T ?a) @
        concat (map (site_output ?T)
          (printed_sites ?T top_percent (total_shown + total_size ?a) (drop (i + 1) ?xs)))"
      by (rule Suc.hyps(1))
    show ?thesis unfolding Print_loop_go [OF more False] d IH
      by (simp only: printed_sites.simps False if_False list.map concat.simps append_assoc)
  qed
qed


lemma mset_Sort_insert: "mset (Sort_insert cmp x ys) = add_mset x (mset ys)"
  by (induction ys) auto

lemma mset_Sort: "mset (Sort cmp v) = mset v"
  unfolding Sort_def by (induction v) (simp_all add: mset_Sort_insert)

lemma length_Sort: "length (Sort cmp v) = length v"
  using mset_Sort [of cmp v] by (rule mset_eq_length)

lemma set_Sort_insert: "set (Sort_insert cmp x ys) = insert x (set ys)"
  by (induction ys) auto

lemma sorted_Sort_insert:
  fixes ys :: "'w::len AllocationSite list"
  assumes "sorted_wrt (\<lambda>a b. total_size b \<le> total_size a) ys"
  shows "sorted_wrt (\<lambda>a b. total_size b \<le> total_size a)
           (Sort_insert (\<lambda>a b. total_size a > total_size b) x ys)"
  using assms
proof (induction ys)
  case Nil
  show ?case by simp
next
  case (Cons y ys)
  show ?case
  proof (cases "total_size y > total_size x")
    case True
    with Cons show ?thesis by (auto simp: set_Sort_insert)
  next
    case False
    then have "total_size y \<le> total_size x" by simp
    with Cons.prems show ?thesis by (auto simp: False)
  qed
qed

lemma sorted_Sort:
  fixes v :: "'w::len AllocationSite list"
  shows "sorted_wrt (\<lambda>a b. total_size b \<le> total_size a)
           (Sort (\<lambda>a b. total_size a > total_size b) v)"
  unfolding Sort_def by (induction v) (simp_all add: sorted_Sort_insert)

lemma site_lines_site_output:
  "site_lines (concat (map (site_output T) xs)) =
     map (\<lambda>a. (total_size a, total_size a * 100 div T, count' a)) xs"
  by (induction xs) (simp_all add: site_output_def)

lemma printed_sites_prefix:
  "printed_sites T top_percent shown as =
     take (length (printed_sites T top_percent shown as)) as"
  by (induction as arbitrary: shown) simp_all

lemma length_printed_sites: "length (printed_sites T top_percent shown as) \<le> length as"
  by (induction as arbitrary: shown) simp_all

lemma Print_Inl:
  "total_allocated_user_size hp = 0 \<Longrightarrow> Print top_percent max_number_of_contexts hp = Inl CHECK_failed"
  by (simp add: Print_def)

lemma Print_Inr:
  assumes "total_allocated_user_size hp \<noteq> 0"
  shows "Print top_percent max_number_of_contexts hp =
     Inr (hp\<lparr>allocations := sorted_allocations hp\<rparr>,
          Header (total_allocated_user_size hp) (total_allocated_count hp)
            (total_quarantined_user_size hp) (total_quarantined_count hp) (total_other_count hp)
            (total_allocated_count hp + total_quarantined_count hp + total_other_count hp)
            top_percent max_number_of_contexts
          # concat (map (site_output (total_allocated_user_size hp))
              (printed_sites (total_allocated_user_size hp) top_percent 0
                 (take (unat max_number_of_contexts) (sorted_allocations hp)))))"
  using assms by (simp add: Print_def Let_def Print_loop_eq sorted_allocations_def)

lemmas Print_eval = Print_def Let_def Sort_def Print_loop.simps

lemma Print_cases:
  "Print top_percent max_number_of_contexts hp = Inr (hp1, out) \<Longrightarrow>
   total_allocated_user_size hp \<noteq> 0
   \<and> hp1 = hp\<lparr>allocations := sorted_allocations hp\<rparr>
   \<and> site_lines out =
       map (\<lambda>a. (total_size a, total_size a * 100 div total_allocated_user_size hp, count' a))
         (printed_sites (total_allocated_user_size hp) top_percent 0
            (take (unat max_number_of_contexts) (sorted_allocations hp)))"
proof -
  assume p: "Print top_percent max_number_of_contexts hp = Inr (hp1, out)"
  have nz: "total_allocated_user_size hp \<noteq> 0"
  proof
    assume "total_allocated_user_size hp = 0"
    then have "Print top_percent max_number_of_contexts hp = Inl CHECK_failed" by (rule Print_Inl)
    with p show False by simp
  qed
  from p show ?thesis unfolding Print_Inr [OF nz]
    using nz by (auto simp: site_lines_site_output)
qed

text \<open>
  Claim C8 (failed precondition). \<^verbatim>\<open>Print\<close> ends in the failed \<^verbatim>\<open>CHECK\<close>, with nothing
  printed, exactly when the total of allocated bytes is zero. A report requested on a heap
  whose snapshot has zero allocated bytes therefore aborts inside the callback, and with it
  the whole coordinator run.
\<close>
theorem zero_allocated_aborts:
  fixes hp :: "'w::len HeapProfile" and w :: "'w world"
  shows "(Print top_percent max_number_of_contexts hp = Inl CHECK_failed
            \<longleftrightarrow> total_allocated_user_size hp = 0)
       \<and> (total_allocated_user_size (snapshot (heap w)) = 0 \<longrightarrow>
            MemoryProfileCB Arg w = Inl CHECK_failed
            \<and> LockDefStuffAndStopTheWorld \<lparr>callback = MemoryProfileCB, argument = Arg\<rparr> w
                = Inl CHECK_failed)"
proof (intro conjI impI)
  show "Print top_percent max_number_of_contexts hp = Inl CHECK_failed
            \<longleftrightarrow> total_allocated_user_size hp = 0"
  proof
    assume "Print top_percent max_number_of_contexts hp = Inl CHECK_failed"
    then show "total_allocated_user_size hp = 0"
      by (cases "total_allocated_user_size hp = 0") (simp_all add: Print_Inr)
  qed (rule Print_Inl)
  assume z: "total_allocated_user_size (snapshot (heap w)) = 0"
  have cb: "MemoryProfileCB A v = Inl CHECK_failed"
    if "total_allocated_user_size (snapshot (heap v)) = 0" for A and v :: "'w world"
    using Print_Inl [OF that] by (simp add: MemoryProfileCB_def snapshot_def)
  from z show "MemoryProfileCB Arg w = Inl CHECK_failed" by (rule cb)
  have "heap (LockAllocator (LockThreadRegistry w)\<lparr>trace :=
          trace (LockAllocator (LockThreadRegistry w)) @ [Suspended]\<rparr>) = heap w"
    by (simp add: LockAllocator_def LockThreadRegistry_def)
  with z have "MemoryProfileCB Arg (LockAllocator (LockThreadRegistry w)\<lparr>trace :=
          trace (LockAllocator (LockThreadRegistry w)) @ [Suspended]\<rparr>) = Inl CHECK_failed"
    by (intro cb) simp
  then show "LockDefStuffAndStopTheWorld \<lparr>callback = MemoryProfileCB, argument = Arg\<rparr> w
                = Inl CHECK_failed"
    by (simp add: LockDefStuffAndStopTheWorld_def StopTheWorld_def)
qed

theorem zero_allocated_aborts_witness:
  "total_allocated_user_size
     (snapshot (heap \<lparr>heap = [chunk False True (50::64 word) 0, chunk False False 0 0],
                      Verbosity = 0, held = [], trace = []\<rparr>)) = 0
   \<and> MemoryProfileCB (100, 10)
        \<lparr>heap = [chunk False True (50::64 word) 0, chunk False False 0 0],
         Verbosity = 0, held = [], trace = []\<rparr> = Inl CHECK_failed
   \<and> LockDefStuffAndStopTheWorld \<lparr>callback = MemoryProfileCB, argument = (100, 10)\<rparr>
        \<lparr>heap = [chunk False True (50::64 word) 0, chunk False False 0 0],
         Verbosity = 0, held = [], trace = []\<rparr> = Inl CHECK_failed"
proof -
  have z: "total_allocated_user_size
     (snapshot (heap \<lparr>heap = [chunk False True (50::64 word) 0, chunk False False 0 0],
                      Verbosity = 0, held = [], trace = []\<rparr>)) = 0"
    by (simp add: snapshot_eval)
  from zero_allocated_aborts [of 100 10 HeapProfile_init
      "\<lparr>heap = [chunk False True (50::64 word) 0, chunk False False 0 0],
         Verbosity = 0, held = [], trace = []\<rparr>" "(100, 10)"] z
  show ?thesis by blast
qed

lemma take_take_le: "k \<le> length (take m ys) \<Longrightarrow> take k (take m ys) = take k ys"
proof -
  assume "k \<le> length (take m ys)"
  then have "k \<le> m" by simp
  then have "min k m = k" by simp
  then show ?thesis by (simp only: take_take)
qed

text \<open>
  Claim C9 (descending order). When \<^verbatim>\<open>Print\<close> produces a report, the vector it leaves
  behind is a rearrangement of the sites, in non-increasing order of \<^verbatim>\<open>total_size\<close>; the
  site lines are the lines of an initial segment of that vector, in its order, so their
  \<^verbatim>\<open>total_size\<close> values never increase from one line to the next. Nothing is said about
  the order of sites of equal size.
\<close>
theorem sorted_output:
  fixes hp :: "'w::len HeapProfile"
  assumes "Print top_percent max_number_of_contexts hp = Inr (hp1, out)"
  shows "mset (allocations hp1) = mset (allocations hp)
       \<and> sorted_wrt (\<lambda>a b. total_size a \<ge> total_size b) (allocations hp1)
       \<and> site_lines out =
           map (\<lambda>a. (total_size a, total_size a * 100 div total_allocated_user_size hp, count' a))
             (take (length (site_lines out)) (allocations hp1))
       \<and> sorted_wrt (\<lambda>s t. s \<ge> t) (map fst (site_lines out))"
proof -
  let ?S = "sorted_allocations hp"
  let ?line = "\<lambda>a. (total_size a, total_size a * 100 div total_allocated_user_size hp, count' a)"
  let ?P = "printed_sites (total_allocated_user_size hp) top_percent 0
              (take (unat max_number_of_contexts) ?S)"
  from Print_cases [OF assms]
  have hp1: "allocations hp1 = ?S" and lines: "site_lines out = map ?line ?P" by simp_all
  have m: "mset ?S = mset (allocations hp)" unfolding sorted_allocations_def by (rule mset_Sort)
  have s: "sorted_wrt (\<lambda>a b. total_size a \<ge> total_size b) ?S"
    unfolding sorted_allocations_def by (rule sorted_Sort)
  have "?P = take (length ?P) (take (unat max_number_of_contexts) ?S)"
    by (rule printed_sites_prefix)
  moreover have "length ?P \<le> length (take (unat max_number_of_contexts) ?S)"
    by (rule length_printed_sites)
  ultimately have P: "?P = take (length ?P) ?S" by (simp only: take_take_le)
  have len: "length (site_lines out) = length ?P" unfolding lines by simp
  have pre: "site_lines out = map ?line (take (length (site_lines out)) ?S)"
    unfolding len using lines P by simp
  have "map fst (site_lines out) = take (length ?P) (map total_size ?S)"
    using pre len by (simp add: take_map comp_def)
  moreover have "sorted_wrt (\<lambda>s t. s \<ge> t) (map total_size ?S)"
    using s by (simp add: sorted_wrt_map)
  ultimately have "sorted_wrt (\<lambda>s t. s \<ge> t) (map fst (site_lines out))"
    by (simp add: sorted_wrt_take)
  with hp1 m s pre show ?thesis by simp
qed


theorem sorted_output_witness:
  "Print 100 10 (snapshot [chunk True False (100::64 word) 1, chunk True False 100 1,
                           chunk True False 700 2, chunk True False 100 1]) =
     Inr (\<lparr>total_allocated_user_size = 1000, total_allocated_count = 4,
           total_quarantined_user_size = 0, total_quarantined_count = 0,
           total_other_count = 0,
           allocations = [\<lparr>id' = 2, total_size = 700, count' = 1\<rparr>,
                          \<lparr>id' = 1, total_size = 300, count' = 3\<rparr>]\<rparr>,
          [Header 1000 4 0 0 0 4 100 10, Site_line 700 70 1, Stack_trace 2,
           Site_line 300 30 3, Stack_trace 1])
   \<and> sorted_wrt (\<lambda>s t. s \<ge> t)
        (map fst (site_lines [Header 1000 4 0 0 0 4 100 10, Site_line 700 70 1, Stack_trace 2,
                              Site_line (300::64 word) 30 3, Stack_trace 1]))"
proof -
  have p: "Print 100 10 (snapshot [chunk True False (100::64 word) 1, chunk True False 100 1,
                           chunk True False 700 2, chunk True False 100 1]) =
     Inr (\<lparr>total_allocated_user_size = 1000, total_allocated_count = 4,
           total_quarantined_user_size = 0, total_quarantined_count = 0,
           total_other_count = 0,
           allocations = [\<lparr>id' = 2, total_size = 700, count' = 1\<rparr>,
                          \<lparr>id' = 1, total_size = 300, count' = 3\<rparr>]\<rparr>,
          [Header 1000 4 0 0 0 4 100 10, Site_line 700 70 1, Stack_trace 2,
           Site_line 300 30 3, Stack_trace 1])"
    by (simp add: snapshot_eval Print_eval)
  from sorted_output [OF p] p show ?thesis by blast
qed

lemma pct_le_100:
  fixes x T :: "'w::len word"
  assumes "unat x \<le> unat T" and "T \<noteq> 0"
  shows "unat (x * 100 div T) \<le> 100"
proof -
  have T: "0 < unat T" using assms(2) by (simp add: unat_gt_0)
  have "unat (x * 100) \<le> unat x * unat (100 :: 'w word)"
    by (simp add: unat_word_ariths)
  also have "unat (100 :: 'w word) \<le> 100" by (simp add: unat_numeral)
  then have "unat x * unat (100 :: 'w word) \<le> unat T * 100"
    using assms(1) by (rule mult_le_mono [rotated])
  finally have "unat (x * 100) div unat T \<le> unat T * 100 div unat T"
    by (rule div_le_mono)
  also have "unat T * 100 div unat T = 100" using T by simp
  finally show ?thesis by (simp only: unat_div)
qed

lemma printed_sites_all:
  fixes T :: "'w::len word"
  assumes "T \<noteq> 0" and "100 \<le> unat top_percent"
  shows "unat shown + (\<Sum>a\<leftarrow>as. unat (total_size a)) \<le> unat T \<Longrightarrow>
         printed_sites T top_percent shown as = as"
proof (induction as arbitrary: shown)
  case Nil
  show ?case by simp
next
  case (Cons a as)
  have T: "unat T < 2 ^ LENGTH('w)" by simp
  from Cons.prems have le: "unat shown + unat (total_size a) \<le> unat T" by simp
  with T have "unat shown + unat (total_size a) < 2 ^ LENGTH('w)" by linarith
  then have u: "unat (shown + total_size a) = unat shown + unat (total_size a)"
    by (simp only: unat_add_lem)
  with le have "unat (shown + total_size a) \<le> unat T" by simp
  then have "unat ((shown + total_size a) * 100 div T) \<le> 100"
    using assms(1) by (rule pct_le_100)
  with assms(2) have "unat ((shown + total_size a) * 100 div T) \<le> unat top_percent" by linarith
  then have no: "\<not> (shown + total_size a) * 100 div T > top_percent"
    by (simp only: word_less_nat_alt not_less)
  from Cons.prems u have "unat (shown + total_size a) + (\<Sum>a\<leftarrow>as. unat (total_size a)) \<le> unat T"
    by simp
  then have "printed_sites T top_percent (shown + total_size a) as = as" by (rule Cons.IH)
  with no show ?case by (simp only: printed_sites.simps if_False)
qed

lemma sum_list_take_le:
  fixes f :: "'a \<Rightarrow> nat"
  shows "(\<Sum>a\<leftarrow>take m xs. f a) \<le> (\<Sum>a\<leftarrow>xs. f a)"
proof -
  have "(\<Sum>a\<leftarrow>xs. f a) = (\<Sum>a\<leftarrow>take m xs @ drop m xs. f a)" by simp
  also have "\<dots> = (\<Sum>a\<leftarrow>take m xs. f a) + (\<Sum>a\<leftarrow>drop m xs. f a)"
    by (simp only: map_append sum_list_append)
  finally show ?thesis by simp
qed

lemma sum_list_mset_cong:
  fixes f :: "'a \<Rightarrow> nat"
  assumes "mset xs = mset ys"
  shows "(\<Sum>a\<leftarrow>xs. f a) = (\<Sum>a\<leftarrow>ys. f a)"
proof -
  have "mset (map f xs) = mset (map f ys)" using assms by (simp only: mset_map)
  then have "sum_mset (mset (map f xs)) = sum_mset (mset (map f ys))" by (rule arg_cong)
  then show ?thesis by (simp only: sum_mset_sum_list)
qed

text \<open>
  Claim C10 (everything listed at 100 percent). The chunks of a snapshot are live chunks of
  one heap: disjoint regions of an address space of \<open>2 ^ w\<close> bytes, for the width \<open>w\<close> of
  \<^verbatim>\<open>uptr\<close>, so the sizes of the allocated ones add up to less than \<open>2 ^ w\<close>. For every
  such sequence of chunks with non-zero allocated bytes and \<^verbatim>\<open>top_percent\<close> at least 100,
  \<^verbatim>\<open>Print\<close> produces a report, the percentage test never stops the loop (the sizes shown
  so far never exceed the allocated bytes, and this survives a wrap of
  \<^verbatim>\<open>total_shown * 100\<close>), and the number of site lines is the smaller of the number of
  sites and \<^verbatim>\<open>max_number_of_contexts\<close>.
\<close>
theorem full_listing:
  fixes chunks :: "'w::len AsanChunkView list"
  assumes "allocated_bytes chunks < 2 ^ LENGTH('w)"
    and "total_allocated_user_size (snapshot chunks) \<noteq> 0"
    and "100 \<le> unat top_percent"
  shows "\<exists>hp1 out. Print top_percent max_number_of_contexts (snapshot chunks) = Inr (hp1, out)
       \<and> length (site_lines out)
           = min (length (allocations (snapshot chunks))) (unat max_number_of_contexts)"
proof -
  let ?hp = "snapshot chunks"
  let ?T = "total_allocated_user_size ?hp"
  let ?S = "sorted_allocations ?hp"
  let ?m = "unat max_number_of_contexts"
  have m: "mset ?S = mset (allocations ?hp)" unfolding sorted_allocations_def by (rule mset_Sort)
  from attribution_nat [OF assms(1)]
  have "(\<Sum>a\<leftarrow>allocations ?hp. unat (total_size a)) \<le> unat ?T" by linarith
  then have "(\<Sum>a\<leftarrow>?S. unat (total_size a)) \<le> unat ?T"
    by (simp only: sum_list_mset_cong [OF m])
  moreover have "(\<Sum>a\<leftarrow>take ?m ?S. unat (total_size a)) \<le> (\<Sum>a\<leftarrow>?S. unat (total_size a))"
    by (rule sum_list_take_le)
  ultimately have "unat (0 :: 'w word) + (\<Sum>a\<leftarrow>take ?m ?S. unat (total_size a)) \<le> unat ?T"
    by simp
  then have all: "printed_sites ?T top_percent 0 (take ?m ?S) = take ?m ?S"
    by (rule printed_sites_all [OF assms(2) assms(3)])
  have "length ?S = length (allocations ?hp)" using m by (rule mset_eq_length)
  then have "length (take ?m ?S) = min (length (allocations ?hp)) ?m" by simp
  then show ?thesis
    unfolding Print_Inr [OF assms(2)] all by (simp add: site_lines_site_output)
qed


lemma printed_sites_nonempty: "as \<noteq> [] \<Longrightarrow> printed_sites T top_percent shown as \<noteq> []"
  by (cases as) simp_all

lemma printed_sites_no_early_stop:
  "j + 1 < length (printed_sites T top_percent shown as) \<Longrightarrow>
   \<not> top_percent < (shown + sum_list (map total_size (take (j + 1) as))) * 100 div T"
proof (induction as arbitrary: shown j)
  case Nil
  then show ?case by simp
next
  case (Cons a as)
  show ?case
  proof (cases "top_percent < (shown + total_size a) * 100 div T")
    case True
    with Cons.prems show ?thesis by simp
  next
    case False
    show ?thesis
    proof (cases j)
      case 0
      with False show ?thesis by simp
    next
      case (Suc i)
      with Cons.prems False have "i + 1 < length (printed_sites T top_percent (shown + total_size a) as)"
        by simp
      then have "\<not> top_percent
          < (shown + total_size a + sum_list (map total_size (take (i + 1) as))) * 100 div T"
        by (rule Cons.IH)
      with Suc show ?thesis by (simp add: add.assoc)
    qed
  qed
qed

lemma printed_sites_stop_reason:
  "length (printed_sites T top_percent shown as) < length as \<Longrightarrow>
   top_percent < (shown + sum_list (map total_size
       (take (length (printed_sites T top_percent shown as)) as))) * 100 div T"
proof (induction as arbitrary: shown)
  case Nil
  then show ?case by simp
next
  case (Cons a as)
  show ?case
  proof (cases "top_percent < (shown + total_size a) * 100 div T")
    case True
    then show ?thesis by simp
  next
    case False
    with Cons.prems have "length (printed_sites T top_percent (shown + total_size a) as) < length as"
      by simp
    then have "top_percent < (shown + total_size a + sum_list (map total_size
       (take (length (printed_sites T top_percent (shown + total_size a) as)) as))) * 100 div T"
      by (rule Cons.IH)
    with False show ?thesis by (simp add: add.assoc)
  qed
qed


lemma Print_selection:
  fixes hp :: "'w::len HeapProfile"
  assumes "Print top_percent max_number_of_contexts hp = Inr (hp1, out)"
  shows "length (site_lines out) \<le> unat max_number_of_contexts"
    and "length (site_lines out) \<le> length (allocations hp)"
    and "allocations hp \<noteq> [] \<Longrightarrow> max_number_of_contexts \<noteq> 0 \<Longrightarrow> 0 < length (site_lines out)"
    and "j + 1 < length (site_lines out) \<Longrightarrow>
           \<not> top_percent < sum_list (map total_size (take (j + 1) (allocations hp1))) * 100
                 div total_allocated_user_size hp"
    and "length (site_lines out) < min (length (allocations hp)) (unat max_number_of_contexts) \<Longrightarrow>
           top_percent < sum_list (map total_size (take (length (site_lines out)) (allocations hp1)))
                 * 100 div total_allocated_user_size hp"
proof -
  let ?S = "sorted_allocations hp"
  let ?m = "unat max_number_of_contexts"
  let ?T = "total_allocated_user_size hp"
  let ?P = "printed_sites ?T top_percent 0 (take ?m ?S)"
  from Print_cases [OF assms]
  have hp1: "allocations hp1 = ?S" and len: "length (site_lines out) = length ?P" by simp_all
  have lS: "length ?S = length (allocations hp)"
    unfolding sorted_allocations_def by (rule length_Sort)
  have le: "length ?P \<le> length (take ?m ?S)" by (rule length_printed_sites)
  then show "length (site_lines out) \<le> unat max_number_of_contexts"
    and "length (site_lines out) \<le> length (allocations hp)"
    unfolding len using lS by simp_all
  show "0 < length (site_lines out)"
    if "allocations hp \<noteq> []" and "max_number_of_contexts \<noteq> 0"
  proof -
    from that(1) lS have "?S \<noteq> []" by auto
    moreover from that(2) have "0 < ?m" by (simp add: unat_gt_0)
    ultimately have "take ?m ?S \<noteq> []" by simp
    then have "?P \<noteq> []" by (rule printed_sites_nonempty)
    then show ?thesis unfolding len by simp
  qed
  show "\<not> top_percent < sum_list (map total_size (take (j + 1) (allocations hp1))) * 100 div ?T"
    if "j + 1 < length (site_lines out)"
  proof -
    from that have j: "j + 1 < length ?P" unfolding len .
    with le have "j + 1 \<le> length (take ?m ?S)" by linarith
    then have "take (j + 1) (take ?m ?S) = take (j + 1) ?S" by (rule take_take_le)
    with printed_sites_no_early_stop [OF j] show ?thesis unfolding hp1 by simp
  qed
  show "top_percent < sum_list (map total_size (take (length (site_lines out)) (allocations hp1)))
                 * 100 div ?T"
    if "length (site_lines out) < min (length (allocations hp)) (unat max_number_of_contexts)"
  proof -
    from that have k: "length ?P < length (take ?m ?S)" unfolding len using lS by simp
    from le have "take (length ?P) (take ?m ?S) = take (length ?P) ?S" by (rule take_take_le)
    with printed_sites_stop_reason [OF k] show ?thesis unfolding hp1 len by simp
  qed
qed

lemma percentage_exact:
  fixes s T :: "'w::len word"
  assumes "unat s * 100 < 2 ^ LENGTH('w)"
  shows "unat (s * 100 div T) = unat s * 100 div unat T"
proof (cases "s = 0")
  case True
  then show ?thesis by (simp add: unat_div)
next
  case False
  then have "0 < unat s" by (simp add: unat_gt_0)
  then have "100 \<le> unat s * 100" by simp
  with assms have "100 < (2 :: nat) ^ LENGTH('w)" by linarith
  then have "unat (100 :: 'w word) = 100" by (simp only: unat_numeral mod_less)
  with assms have "unat (s * 100) = unat s * 100" by (simp add: unat_word_ariths)
  then show ?thesis by (simp only: unat_div)
qed

lemma Print_percentage:
  fixes hp :: "'w::len HeapProfile"
  assumes "Print top_percent max_number_of_contexts hp = Inr (hp1, out)"
    and "(s, p, c) \<in> set (site_lines out)"
  shows "p = s * 100 div total_allocated_user_size hp"
    and "unat s * 100 < 2 ^ LENGTH('w) \<Longrightarrow>
         unat p = unat s * 100 div unat (total_allocated_user_size hp)"
proof -
  from Print_cases [OF assms(1)] assms(2)
  show p: "p = s * 100 div total_allocated_user_size hp" by auto
  show "unat p = unat s * 100 div unat (total_allocated_user_size hp)"
    if "unat s * 100 < 2 ^ LENGTH('w)"
    unfolding p using that by (rule percentage_exact)
qed


text \<open>
  Claim C7 (percentage). The claim is that every site line shows
  floor(\<^verbatim>\<open>total_size\<close> * 100 / allocated bytes). \<^verbatim>\<open>Print\<close> multiplies in \<^verbatim>\<open>uptr\<close>, and the
  product wraps as soon as \<^verbatim>\<open>total_size\<close> * 100 reaches \<open>2 ^ w\<close>. With a 32-bit
  \<^verbatim>\<open>uptr\<close> and a single site of 50,000,000 bytes that holds all the allocated memory, the
  line shows 14 percent where the quotient is 100. Below the wrap-around the line shows the
  quotient (\<open>Print_percentage\<close>).
\<close>
theorem percentage_wraps:
  "Print 100 10 (snapshot [chunk True False (50000000 :: 32 word) 1]) =
     Inr (\<lparr>total_allocated_user_size = 50000000, total_allocated_count = 1,
           total_quarantined_user_size = 0, total_quarantined_count = 0,
           total_other_count = 0,
           allocations = [\<lparr>id' = 1, total_size = 50000000, count' = 1\<rparr>]\<rparr>,
          [Header 50000000 1 0 0 0 1 100 10, Site_line 50000000 14 1, Stack_trace 1])
   \<and> unat (50000000 :: 32 word) * 100 div unat (50000000 :: 32 word) = 100"
  by (simp add: snapshot_eval Print_eval)

lemma percentage_wraps_64:
  "Print 100 10 (snapshot [chunk True False (288230376151711744 :: 64 word) 1]) =
     Inr (\<lparr>total_allocated_user_size = 288230376151711744, total_allocated_count = 1,
           total_quarantined_user_size = 0, total_quarantined_count = 0,
           total_other_count = 0,
           allocations = [\<lparr>id' = 1, total_size = 288230376151711744, count' = 1\<rparr>]\<rparr>,
          [Header 288230376151711744 1 0 0 0 1 100 10,
           Site_line 288230376151711744 36 1, Stack_trace 1])"
  by (simp add: snapshot_eval Print_eval)

text \<open>
  Claim C2 (selection). The number of site lines never exceeds \<^verbatim>\<open>max_number_of_contexts\<close>,
  and the loop stops right after the first line at which the value it computes for the
  cumulative percentage exceeds \<^verbatim>\<open>top_percent\<close>, that line included (\<open>Print_selection\<close>).
  The value is computed in \<^verbatim>\<open>uptr\<close>, however, and \<^verbatim>\<open>total_shown * 100\<close> wraps. With a
  32-bit \<^verbatim>\<open>uptr\<close>, sites of 45,000,000 and 5,000,000 bytes and \<^verbatim>\<open>top_percent\<close> = 50, the
  first line already covers 90 percent of the allocated bytes, the test sees 4, and the
  second site is printed as well.
\<close>
theorem threshold_wraps:
  "Print 50 10 (snapshot [chunk True False (45000000 :: 32 word) 1, chunk True False 5000000 2]) =
     Inr (\<lparr>total_allocated_user_size = 50000000, total_allocated_count = 2,
           total_quarantined_user_size = 0, total_quarantined_count = 0,
           total_other_count = 0,
           allocations = [\<lparr>id' = 1, total_size = 45000000, count' = 1\<rparr>,
                          \<lparr>id' = 2, total_size = 5000000, count' = 1\<rparr>]\<rparr>,
          [Header 50000000 2 0 0 0 2 50 10, Site_line 45000000 4 1, Stack_trace 1,
           Site_line 5000000 10 1, Stack_trace 2])
   \<and> unat (45000000 :: 32 word) * 100 div unat (50000000 :: 32 word) = 90
   \<and> unat (50 :: 32 word) = 50"
  by (simp add: snapshot_eval Print_eval)

theorem full_listing_witness:
  "allocated_bytes [chunk True False (100::64 word) 1, chunk True False 100 1,
                    chunk True False 700 2, chunk True False 100 1] < 2 ^ LENGTH(64)
   \<and> total_allocated_user_size (snapshot [chunk True False (100::64 word) 1,
        chunk True False 100 1, chunk True False 700 2, chunk True False 100 1]) \<noteq> 0
   \<and> 100 \<le> unat (100 :: 64 word)
   \<and> (\<exists>hp1 out. Print 100 1 (snapshot [chunk True False (100::64 word) 1,
          chunk True False 100 1, chunk True False 700 2, chunk True False 100 1]) = Inr (hp1, out)
        \<and> length (site_lines out) = 1)"
proof -
  have a: "allocated_bytes [chunk True False (100::64 word) 1, chunk True False 100 1,
                    chunk True False 700 2, chunk True False 100 1] < 2 ^ LENGTH(64)"
    by (simp add: allocated_bytes_def chunk_def)
  have s: "snapshot [chunk True False (100::64 word) 1,
        chunk True False 100 1, chunk True False 700 2, chunk True False 100 1] =
       \<lparr>total_allocated_user_size = 1000, total_allocated_count = 4,
         total_quarantined_user_size = 0, total_quarantined_count = 0,
         total_other_count = 0,
         allocations = [\<lparr>id' = 1, total_size = 300, count' = 3\<rparr>,
                        \<lparr>id' = 2, total_size = 700, count' = 1\<rparr>]\<rparr>"
    by (simp add: snapshot_eval)
  have t: "total_allocated_user_size (snapshot [chunk True False (100::64 word) 1,
        chunk True False 100 1, chunk True False 700 2, chunk True False 100 1]) \<noteq> 0"
    unfolding s by simp
  have p: "100 \<le> unat (100 :: 64 word)" by simp
  from full_listing [OF a t p, of 1] a t p show ?thesis unfolding s by simp
qed

text \<open>
  Claim C1 (lock order), amended. When \<^verbatim>\<open>LockDefStuffAndStopTheWorld\<close> returns, it has
  acquired the thread registry lock first and the allocator lock second, then entered the
  freeze with both locks held and run the callback once; after the resume it has released
  the allocator lock first and the thread registry lock second, the reverse of the order of
  acquisition. The order of acquisition is thread registry first: the first two events of a
  run are never the allocator lock followed by the thread registry lock.
\<close>
theorem lock_order:
  fixes w w' :: "'w::len world"
  assumes "LockDefStuffAndStopTheWorld param w = Inr w'"
  shows "\<exists>w1 w2. callback param (argument param) w1 = Inr w2
       \<and> trace w1 = trace w @ [Acquire ThreadRegistry, Acquire Allocator, Suspended]
       \<and> held w1 = Allocator # ThreadRegistry # held w
       \<and> trace w' = trace w2 @ [Resumed, Release Allocator, Release ThreadRegistry]
       \<and> held w' = remove1 ThreadRegistry (remove1 Allocator (held w2))"
proof -
  let ?w1 = "(LockAllocator (LockThreadRegistry w))\<lparr>trace :=
               trace (LockAllocator (LockThreadRegistry w)) @ [Suspended]\<rparr>"
  from assms obtain w2 where cb: "callback param (argument param) ?w1 = Inr w2"
    and w': "w' = UnlockThreadRegistry (UnlockAllocator (w2\<lparr>trace := trace w2 @ [Resumed]\<rparr>))"
    by (auto simp: LockDefStuffAndStopTheWorld_def StopTheWorld_def Let_def split: sum.splits)
  have "trace ?w1 = trace w @ [Acquire ThreadRegistry, Acquire Allocator, Suspended]"
    and "held ?w1 = Allocator # ThreadRegistry # held w"
    by (simp_all add: LockAllocator_def LockThreadRegistry_def)
  moreover have "trace w' = trace w2 @ [Resumed, Release Allocator, Release ThreadRegistry]"
    and "held w' = remove1 ThreadRegistry (remove1 Allocator (held w2))"
    unfolding w' by (simp_all add: UnlockAllocator_def UnlockThreadRegistry_def)
  ultimately show ?thesis using cb by blast
qed


lemma coordinator_example:
  "LockDefStuffAndStopTheWorld \<lparr>callback = MemoryProfileCB, argument = (100, 10)\<rparr>
     \<lparr>heap = [chunk True False (300::64 word) 7], Verbosity = 0, held = [], trace = []\<rparr> =
   Inr \<lparr>heap = [chunk True False 300 7], Verbosity = 0, held = [],
        trace = [Acquire ThreadRegistry, Acquire Allocator, Suspended,
                 Printed (Header 300 1 0 0 0 1 100 10), Printed (Site_line 300 100 1),
                 Printed (Stack_trace 7),
                 Resumed, Release Allocator, Release ThreadRegistry]\<rparr>"
  by (simp add: LockDefStuffAndStopTheWorld_def StopTheWorld_def MemoryProfileCB_def
      LockThreadRegistry_def LockAllocator_def UnlockAllocator_def UnlockThreadRegistry_def
      snapshot_eval Print_eval)

theorem lock_order_witness:
  "LockDefStuffAndStopTheWorld \<lparr>callback = MemoryProfileCB, argument = (100, 10)\<rparr>
     \<lparr>heap = [chunk True False (300::64 word) 7], Verbosity = 0, held = [], trace = []\<rparr> =
   Inr \<lparr>heap = [chunk True False 300 7], Verbosity = 0, held = [],
        trace = [Acquire ThreadRegistry, Acquire Allocator, Suspended,
                 Printed (Header 300 1 0 0 0 1 100 10), Printed (Site_line 300 100 1),
                 Printed (Stack_trace 7),
                 Resumed, Release Allocator, Release ThreadRegistry]\<rparr>
   \<and> (\<exists>w1 w2 :: 64 world. MemoryProfileCB (100, 10) w1 = Inr w2
       \<and> trace w1 = [Acquire ThreadRegistry, Acquire Allocator, Suspended]
       \<and> held w1 = [Allocator, ThreadRegistry]
       \<and> [Acquire ThreadRegistry, Acquire Allocator, Suspended,
           Printed (Header 300 1 0 0 0 1 100 10), Printed (Site_line 300 100 1),
           Printed (Stack_trace 7),
           Resumed, Release Allocator, Release ThreadRegistry]
          = trace w2 @ [Resumed, Release Allocator, Release ThreadRegistry]
       \<and> [] = remove1 ThreadRegistry (remove1 Allocator (held w2)))"
  using lock_order [OF coordinator_example] coordinator_example by simp

theorem thread_registry_lock_first:
  "LockDefStuffAndStopTheWorld \<lparr>callback = MemoryProfileCB, argument = (100, 10)\<rparr>
     \<lparr>heap = [chunk True False (300::64 word) 7], Verbosity = 0, held = [], trace = []\<rparr> =
   Inr \<lparr>heap = [chunk True False 300 7], Verbosity = 0, held = [],
        trace = [Acquire ThreadRegistry, Acquire Allocator, Suspended,
                 Printed (Header 300 1 0 0 0 1 100 10), Printed (Site_line 300 100 1),
                 Printed (Stack_trace 7),
                 Resumed, Release Allocator, Release ThreadRegistry]\<rparr>
   \<and> take 2 [Acquire ThreadRegistry, Acquire Allocator, Suspended,
              Printed (Header (300::64 word) 1 0 0 0 1 100 10), Printed (Site_line 300 100 1),
              Printed (Stack_trace 7),
              Resumed, Release Allocator, Release ThreadRegistry]
       \<noteq> [Acquire Allocator, Acquire ThreadRegistry]"
  by (simp add: LockDefStuffAndStopTheWorld_def StopTheWorld_def MemoryProfileCB_def
      LockThreadRegistry_def LockAllocator_def UnlockAllocator_def UnlockThreadRegistry_def
      snapshot_eval Print_eval)

end
